theory Spec2Isabelle
  imports Complex_Main "HOL-Library.Word"
begin

section \<open>JavaScript strings\<close>

text \<open>
  A JavaScript string is a sequence of UTF-16 code units. The literals of the source are
  ASCII, so \<open>js\<close> turns an Isabelle string literal into the code units of the same text.
\<close>

type_synonym code_unit = "16 word"
type_synonym jsstring = "code_unit list"

definition js :: "string \<Rightarrow> jsstring" where
  "js s = map of_char s"

text \<open>Truthiness of a string value: every string but the empty one.\<close>

definition truthy :: "jsstring \<Rightarrow> bool" where
  "truthy s = (s \<noteq> [])"

text \<open>\<^verbatim>\<open>s.startsWith(p)\<close>\<close>

definition startsWith :: "jsstring \<Rightarrow> jsstring \<Rightarrow> bool" where
  "startsWith s p = (take (length p) s = p)"

text \<open>
  \<^verbatim>\<open>s.replace(pat, '')\<close> with a string pattern: the first occurrence of \<open>pat\<close>, scanning
  from the left, is removed; a string without an occurrence is returned as it is.
\<close>

fun removeFirst :: "jsstring \<Rightarrow> jsstring \<Rightarrow> jsstring" where
  "removeFirst pat [] = []"
| "removeFirst pat (c # cs) =
     (if startsWith (c # cs) pat then drop (length pat) (c # cs)
      else c # removeFirst pat cs)"

subsection \<open>The regular expression \<^verbatim>\<open>/^\d+\.\s/\<close>\<close>

text \<open>\<^verbatim>\<open>\d\<close> is an ASCII digit.\<close>

definition isDigit :: "code_unit \<Rightarrow> bool" where
  "isDigit c = (0x30 \<le> c \<and> c \<le> 0x39)"

text \<open>\<^verbatim>\<open>\s\<close> is ECMAScript white space or a line terminator.\<close>

definition isWhiteSpace :: "code_unit \<Rightarrow> bool" where
  "isWhiteSpace c =
     (c = 0x09 \<or> c = 0x0A \<or> c = 0x0B \<or> c = 0x0C \<or> c = 0x0D \<or> c = 0x20 \<or> c = 0xA0 \<or>
      c = 0x1680 \<or> (0x2000 \<le> c \<and> c \<le> 0x200A) \<or> c = 0x2028 \<or> c = 0x2029 \<or>
      c = 0x202F \<or> c = 0x205F \<or> c = 0x3000 \<or> c = 0xFEFF)"

text \<open>
  The length of the match of \<^verbatim>\<open>/^\d+\.\s/\<close> at the start of a string, if there is one:
  the longest run of digits (not empty), a full stop, one white-space unit. A shorter run
  of digits never matches, since the unit after it is a digit and not the full stop.
\<close>

definition matchNumbered :: "jsstring \<Rightarrow> nat option" where
  "matchNumbered s =
     (let ds = takeWhile isDigit s; rest = dropWhile isDigit s in
      if ds = [] then None
      else (case rest of
              dot # sp # _ \<Rightarrow>
                if dot = 0x2E \<and> isWhiteSpace sp then Some (length ds + 2) else None
            | _ \<Rightarrow> None))"

text \<open>\<^verbatim>\<open>/^\d+\.\s/.test(s)\<close>\<close>

definition testNumbered :: "jsstring \<Rightarrow> bool" where
  "testNumbered s = (matchNumbered s \<noteq> None)"

text \<open>\<^verbatim>\<open>s.replace(/^\d+\.\s/, '')\<close>\<close>

definition stripNumbered :: "jsstring \<Rightarrow> jsstring" where
  "stripNumbered s = (case matchNumbered s of None \<Rightarrow> s | Some n \<Rightarrow> drop n s)"

section \<open>The data model (\<^verbatim>\<open>types/index.ts\<close>)\<close>

record Article =
  number :: int
  title :: jsstring
  date :: jsstring
  topics :: "jsstring list"
  sessions :: "jsstring list"
  relevance :: "jsstring \<rightharpoonup> jsstring"
  content :: "jsstring option"
  inCurriculum :: "bool option"

record SessionResource =
  title :: jsstring
  url :: jsstring
  source :: "jsstring option"

record Introspection =
  title :: jsstring
  prompts :: "jsstring list"

datatype FourCCategory = Communication | Customer | Cognizance | Charisma

text \<open>
  The optional fields of a session are \<open>None\<close> when the key is absent. The field \<open>id\<close>
  of the source is \<open>id_field\<close> here.
\<close>

record Session =
  id_field :: jsstring
  name :: jsstring
  day :: int
  time :: jsstring
  fourC :: FourCCategory
  coreTopics :: "jsstring list"
  articles :: "int list"
  hasContent :: bool
  emptyReason :: "jsstring option"
  description :: "jsstring option"
  discussionPoints :: "jsstring list option"
  introspections :: "Introspection list option"
  resources :: "SessionResource list option"

section \<open>The reveal sequence (\<^verbatim>\<open>buildRevealItems\<close>)\<close>

text \<open>
  The tagged union \<^verbatim>\<open>RevealItem\<close>; a discussion point carries its text, its index and
  the number of discussion points.
\<close>

datatype RevealItem =
    Description jsstring
  | CoreTopics "jsstring list"
  | DiscussionPoint jsstring nat nat
  | IntrospectionItem Introspection
  | ResourcesItem "SessionResource list"
  | ArticlesItem

text \<open>\<^verbatim>\<open>items.push(x)\<close> on the array that is being built.\<close>

definition push :: "'a list \<Rightarrow> 'a \<Rightarrow> 'a list" where
  "push items x = items @ [x]"

text \<open>
  \<^verbatim>\<open>xs.forEach((x, i) => ...)\<close> where the callback updates a state: the elements in
  order, each with its index.
\<close>

fun forEachFrom :: "nat \<Rightarrow> 'a list \<Rightarrow> ('a \<Rightarrow> nat \<Rightarrow> 's \<Rightarrow> 's) \<Rightarrow> 's \<Rightarrow> 's" where
  "forEachFrom i [] f s = s"
| "forEachFrom i (x # xs) f s = forEachFrom (Suc i) xs f (f x i s)"

definition forEach :: "'a list \<Rightarrow> ('a \<Rightarrow> nat \<Rightarrow> 's \<Rightarrow> 's) \<Rightarrow> 's \<Rightarrow> 's" where
  "forEach xs f s = forEachFrom 0 xs f s"

definition buildRevealItems :: "Session \<Rightarrow> RevealItem list" where
  "buildRevealItems session =
     (let items0 = [];
          items1 = (case description session of
                      Some d \<Rightarrow> if truthy d then push items0 (Description d) else items0
                    | None \<Rightarrow> items0);
          items2 = push items1 (CoreTopics (coreTopics session));
          items3 = (case discussionPoints session of
                      Some dps \<Rightarrow>
                        forEach dps
                          (\<lambda>text i items. push items (DiscussionPoint text i (length dps)))
                          items2
                    | None \<Rightarrow> items2);
          items4 = (case introspections session of
                      Some intros \<Rightarrow>
                        forEach intros (\<lambda>intro i items. push items (IntrospectionItem intro))
                          items3
                    | None \<Rightarrow> items3);
          items5 = (case resources session of
                      Some rs \<Rightarrow> if length rs > 0 then push items4 (ResourcesItem rs) else items4
                    | None \<Rightarrow> items4);
          items6 = (if length (articles session) > 0 then push items5 ArticlesItem else items5)
      in items6)"

text \<open>A missing optional list counts as the empty list.\<close>

definition orEmpty :: "'a list option \<Rightarrow> 'a list" where
  "orEmpty xs = (case xs of None \<Rightarrow> [] | Some l \<Rightarrow> l)"

text \<open>
  The sequence in the words of the specification, with the description item for a
  description that is present and not the empty string.
\<close>

definition descriptionItems :: "Session \<Rightarrow> RevealItem list" where
  "descriptionItems session =
     (case description session of
        Some d \<Rightarrow> if d = [] then [] else [Description d]
      | None \<Rightarrow> [])"

definition discussionItems :: "Session \<Rightarrow> RevealItem list" where
  "discussionItems session =
     (let dps = orEmpty (discussionPoints session) in
      map (\<lambda>i. DiscussionPoint (dps ! i) i (length dps)) [0..<length dps])"

definition sequenceOf :: "Session \<Rightarrow> RevealItem list" where
  "sequenceOf session =
     descriptionItems session
     @ [CoreTopics (coreTopics session)]
     @ discussionItems session
     @ map IntrospectionItem (orEmpty (introspections session))
     @ (if orEmpty (resources session) = [] then []
        else [ResourcesItem (orEmpty (resources session))])
     @ (if articles session = [] then [] else [ArticlesItem])"

text \<open>A session whose description is present and is the empty string.\<close>

definition emptyDescriptionSession :: Session where
  "emptyDescriptionSession =
     \<lparr> id_field = js ''intro'', name = js ''Intro'', day = 1, time = js ''9:00'',
       fourC = Communication, coreTopics = [js ''Listening''], articles = [],
       hasContent = False, emptyReason = None, description = Some [],
       discussionPoints = None, introspections = None, resources = None \<rparr>"

text \<open>
  A session with every kind of content; its four discussion points are those of the
  grouping example of the specification.
\<close>

definition sampleSession :: Session where
  "sampleSession =
     \<lparr> id_field = js ''feedback'', name = js ''Feedback'', day = 1, time = js ''10:00'',
       fourC = Communication, coreTopics = [js ''Listening'', js ''Candour''],
       articles = [3], hasContent = True, emptyReason = None,
       description = Some (js ''Giving feedback''),
       discussionPoints =
         Some [js ''Point A'', js ''1. Sub one'', js ''2. Sub two'', js ''Point B''],
       introspections = Some [\<lparr> title = js ''Reflect'', prompts = [js ''Why?''] \<rparr>],
       resources =
         Some [\<lparr> SessionResource.title = js ''A'', url = js ''https://a'', source = None \<rparr>] \<rparr>"

section \<open>The session card (\<^verbatim>\<open>SessionCard\<close>)\<close>

text \<open>
  The props of the component (the session, the article library, \<open>isExpanded\<close>) and its
  state \<open>step\<close>. The prop \<open>articles\<close> of the source is \<open>articles_prop\<close> here. A JavaScript
  number that only ever holds an integer is an \<open>int\<close>.
\<close>

record SessionCard =
  session :: Session
  articles_prop :: "Article list"
  isExpanded :: bool
  step :: int

text \<open>\<^verbatim>\<open>useState(0)\<close>: the state of a card when it is mounted.\<close>

definition mount :: "Session \<Rightarrow> Article list \<Rightarrow> bool \<Rightarrow> SessionCard" where
  "mount s as expanded =
     \<lparr> session = s, articles_prop = as, isExpanded = expanded, step = 0 \<rparr>"

definition revealItems :: "SessionCard \<Rightarrow> RevealItem list" where
  "revealItems c = buildRevealItems (session c)"

definition totalSteps :: "SessionCard \<Rightarrow> int" where
  "totalSteps c = int (length (revealItems c))"

definition allRevealed :: "SessionCard \<Rightarrow> bool" where
  "allRevealed c = (step c \<ge> totalSteps c)"

text \<open>
  The click handlers. \<^verbatim>\<open>useCallback\<close> creates them in a render, and the \<^verbatim>\<open>step\<close> in
  their guards is the state that render read: the parameter \<open>captured\<close>. The update
  \<^verbatim>\<open>setStep(s => s + 1)\<close> applies to the state at the time of the call, which differs
  from \<open>captured\<close> once a handler has run and the card has not been rendered again.
  (\<^verbatim>\<open>totalSteps\<close> is captured too; it depends on the session alone.)
\<close>

definition advance :: "int \<Rightarrow> SessionCard \<Rightarrow> SessionCard" where
  "advance captured c = (if captured < totalSteps c then c\<lparr>step := step c + 1\<rparr> else c)"

definition goBack :: "int \<Rightarrow> SessionCard \<Rightarrow> SessionCard" where
  "goBack captured c = (if captured > 0 then c\<lparr>step := step c - 1\<rparr> else c)"

definition revealAll :: "SessionCard \<Rightarrow> SessionCard" where
  "revealAll c = c\<lparr>step := totalSteps c\<rparr>"

text \<open>
  The \<^verbatim>\<open>keydown\<close> handler; the listener is attached only while the card is expanded, so a
  key pressed on a collapsed card changes nothing.
\<close>

definition keydown :: "jsstring \<Rightarrow> SessionCard \<Rightarrow> SessionCard" where
  "keydown key c =
     (if \<not> isExpanded c then c
      else if key = js ''ArrowRight'' \<or> key = js '' '' then
        c\<lparr>step := min (step c + 1) (totalSteps c)\<rparr>
      else if key = js ''ArrowLeft'' then
        c\<lparr>step := max (step c - 1) 0\<rparr>
      else c)"

text \<open>
  The effect \<^verbatim>\<open>if (!isExpanded) setStep(0)\<close> with the dependency \<open>isExpanded\<close>: it runs
  after a render in which the prop has changed. \<open>rerender\<close> is the parent rendering the
  card with a value of the prop.
\<close>

definition resetEffect :: "SessionCard \<Rightarrow> SessionCard" where
  "resetEffect c = (if \<not> isExpanded c then c\<lparr>step := 0\<rparr> else c)"

definition rerender :: "bool \<Rightarrow> SessionCard \<Rightarrow> SessionCard" where
  "rerender expanded c =
     (let c' = c\<lparr>isExpanded := expanded\<rparr> in
      if expanded \<noteq> isExpanded c then resetEffect c' else c')"




definition stepInRange :: "SessionCard \<Rightarrow> bool" where
  "stepInRange c = (0 \<le> step c \<and> step c \<le> totalSteps c)"

definition sampleCard :: SessionCard where
  "sampleCard = mount sampleSession [] True"


subsection \<open>\<^verbatim>\<open>renderItem\<close>\<close>

text \<open>
  What \<^verbatim>\<open>renderItem\<close> returns for an item: nothing (\<^verbatim>\<open>null\<close>) or an element, which is
  styled as emphasized when \<open>isCurrent\<close> holds and as dimmed otherwise, with a body that
  depends on the kind of the item.
\<close>

datatype Emphasis = Emphasized | Dimmed

datatype Body =
    DescriptionBody jsstring
  | TopicsBody "jsstring list"
  | VideoLink jsstring jsstring
  | NumberedPoint nat jsstring
  | IntrospectionBody Introspection
  | ResourcesBody "SessionResource list"
  | ArticleCards "Article list"
  | EmptyNotice "jsstring option"

definition getArticleById :: "SessionCard \<Rightarrow> int \<Rightarrow> Article option" where
  "getArticleById c n = find (\<lambda>a. number a = n) (articles_prop c)"

text \<open>
  The resource of a video break: \<^verbatim>\<open>session.resources?.find(r => r.title ===
  text.replace('Video Break: ', ''))\<close> for a text that starts with \<^verbatim>\<open>Video Break:\<close>.
\<close>

definition videoResourceOf :: "Session \<Rightarrow> jsstring \<Rightarrow> SessionResource option" where
  "videoResourceOf s t =
     (if startsWith t (js ''Video Break:'') then
        (case resources s of
           None \<Rightarrow> None
         | Some rs \<Rightarrow>
             find (\<lambda>r. SessionResource.title r = removeFirst (js ''Video Break: '') t) rs)
      else None)"

definition renderBody :: "SessionCard \<Rightarrow> RevealItem \<Rightarrow> Body" where
  "renderBody c item =
     (case item of
        Description t \<Rightarrow> DescriptionBody t
      | CoreTopics ts \<Rightarrow> TopicsBody ts
      | DiscussionPoint t index count \<Rightarrow>
          (let isVideoBreak = startsWith t (js ''Video Break:'');
               videoResource = videoResourceOf (session c) t
           in case videoResource of
                Some r \<Rightarrow>
                  if isVideoBreak then VideoLink (url r) t else NumberedPoint (index + 1) t
              | None \<Rightarrow> NumberedPoint (index + 1) t)
      | IntrospectionItem intro \<Rightarrow> IntrospectionBody intro
      | ResourcesItem rs \<Rightarrow> ResourcesBody rs
      | ArticlesItem \<Rightarrow>
          if hasContent (session c) then
            ArticleCards (List.map_filter (getArticleById c) (articles (session c)))
          else
            EmptyNotice
              (case emptyReason (session c) of
                 Some r \<Rightarrow> if truthy r then Some r else None
               | None \<Rightarrow> None))"

definition renderItem :: "SessionCard \<Rightarrow> RevealItem \<Rightarrow> nat \<Rightarrow> (Emphasis \<times> Body) option" where
  "renderItem c item idx =
     (let isCurrent = (int idx = step c - 1);
          isPast = (int idx < step c - 1);
          isVisible = (int idx < step c)
      in if \<not> isVisible then None
         else Some (if isCurrent then Emphasized else Dimmed, renderBody c item))"

text \<open>The three tiers of visibility, read off what \<^verbatim>\<open>renderItem\<close> returns.\<close>

datatype Visibility = Invisible | Past | Current

definition visibility :: "SessionCard \<Rightarrow> RevealItem \<Rightarrow> nat \<Rightarrow> Visibility" where
  "visibility c item idx =
     (case renderItem c item idx of
        None \<Rightarrow> Invisible
      | Some (Emphasized, _) \<Rightarrow> Current
      | Some (Dimmed, _) \<Rightarrow> Past)"

subsection \<open>The progress bar\<close>

text \<open>
  The width is \<^verbatim>\<open>totalSteps > 0 ? (step / totalSteps) * 100 : 0\<close>, computed on JavaScript
  numbers. An arithmetic operation on finite doubles is the exact operation followed by
  rounding to a double; the rounding is the parameter \<open>rnd\<close>. A division by zero gives
  no finite number (\<^verbatim>\<open>NaN\<close> or an infinity), which is \<open>NotFinite\<close> here, and an operation
  on such a value gives such a value again.
\<close>

datatype JsNumber = Num real | NotFinite

fun jsDivide :: "(real \<Rightarrow> real) \<Rightarrow> JsNumber \<Rightarrow> JsNumber \<Rightarrow> JsNumber" where
  "jsDivide rnd (Num a) (Num b) = (if b = 0 then NotFinite else Num (rnd (a / b)))"
| "jsDivide rnd _ _ = NotFinite"

fun jsTimes :: "(real \<Rightarrow> real) \<Rightarrow> JsNumber \<Rightarrow> JsNumber \<Rightarrow> JsNumber" where
  "jsTimes rnd (Num a) (Num b) = Num (rnd (a * b))"
| "jsTimes rnd _ _ = NotFinite"

definition progressWidth :: "(real \<Rightarrow> real) \<Rightarrow> int \<Rightarrow> int \<Rightarrow> JsNumber" where
  "progressWidth rnd stepVal totalVal =
     (if totalVal > 0 then
        jsTimes rnd (jsDivide rnd (Num (real_of_int stepVal)) (Num (real_of_int totalVal)))
          (Num 100)
      else Num 0)"

definition cardProgress :: "(real \<Rightarrow> real) \<Rightarrow> SessionCard \<Rightarrow> JsNumber" where
  "cardProgress rnd c = progressWidth rnd (step c) (totalSteps c)"

text \<open>
  What the claims need of the rounding: it is monotone and it leaves the doubles 0, 1 and
  100 as they are. Rounding to the nearest double is such a function, and so is the
  identity (exact arithmetic).
\<close>

definition rounding :: "(real \<Rightarrow> real) \<Rightarrow> bool" where
  "rounding rnd = (mono rnd \<and> rnd 0 = 0 \<and> rnd 1 = 1 \<and> rnd 100 = 100)"

section \<open>The drill-down navigator (\<^verbatim>\<open>CognizanceGridSection\<close>)\<close>

datatype CognizanceSection =
  Grid | Culture | GoalsAck | ColleaguesEnv | Next6 | Budget | Politics | Network

text \<open>
  The state \<open>activeSection\<close>, and the number of scroll requests the handlers have made
  (each handler schedules one \<^verbatim>\<open>scrollIntoView\<close>).
\<close>

record GridState =
  activeSection :: CognizanceSection
  scrollRequests :: nat

text \<open>\<^verbatim>\<open>useState<CognizanceSection>('grid')\<close>\<close>

definition initialGrid :: GridState where
  "initialGrid = \<lparr> activeSection = Grid, scrollRequests = 0 \<rparr>"

definition goBackToGrid :: "GridState \<Rightarrow> GridState" where
  "goBackToGrid g = g\<lparr>activeSection := Grid, scrollRequests := scrollRequests g + 1\<rparr>"

definition openSection :: "CognizanceSection \<Rightarrow> GridState \<Rightarrow> GridState" where
  "openSection section g =
     g\<lparr>activeSection := section, scrollRequests := scrollRequests g + 1\<rparr>"

section \<open>The grouped display (\<^verbatim>\<open>SessionContentDisplay\<close>)\<close>

text \<open>
  The discussion points the component displays: those of the session, filtered when the
  caller passes \<open>filterDiscussionPoints\<close>, and none when the session has no such field.
\<close>

definition displayedDiscussionPoints ::
  "Session \<Rightarrow> (jsstring \<Rightarrow> bool) option \<Rightarrow> jsstring list" where
  "displayedDiscussionPoints s filterDiscussionPoints =
     (case discussionPoints s of
        Some dps \<Rightarrow>
          (case filterDiscussionPoints of Some f \<Rightarrow> filter f dps | None \<Rightarrow> dps)
      | None \<Rightarrow> [])"

text \<open>
  The inner loop \<^verbatim>\<open>while (i + 1 < n && /^\d+\.\s/.test(dps[i + 1])) { children.push(...);
  i++ }\<close>: it returns the children and the index it stops at.
\<close>

function collectChildren ::
  "jsstring list \<Rightarrow> nat \<Rightarrow> jsstring list \<Rightarrow> jsstring list \<times> nat" where
  "collectChildren dps i children =
     (if i + 1 < length dps \<and> testNumbered (dps ! (i + 1)) then
        collectChildren dps (i + 1) (push children (stripNumbered (dps ! (i + 1))))
      else (children, i))"
  by pat_completeness auto
termination
  by (relation "measure (\<lambda>(dps, i, children). length dps - i)") auto

declare collectChildren.simps [simp del]

record Grouped =
  point :: jsstring
  children :: "jsstring list"
  isVideoBreak :: bool
  videoResource :: "SessionResource option"

text \<open>
  The outer loop \<^verbatim>\<open>for (let i = 0; i < n; i++)\<close>: the point at \<open>i\<close> starts a group, the
  inner loop moves \<open>i\<close> past its children, and the group is pushed.
\<close>

function groupLoop ::
  "Session \<Rightarrow> jsstring list \<Rightarrow> nat \<Rightarrow> Grouped list \<Rightarrow> Grouped list" where
  "groupLoop s dps i grouped =
     (if i < length dps then
        (let collected = collectChildren dps i [] in
         groupLoop s dps (snd collected + 1)
           (push grouped
              \<lparr> point = dps ! i,
                children = fst collected,
                isVideoBreak = startsWith (dps ! i) (js ''Video Break:''),
                videoResource = videoResourceOf s (dps ! i) \<rparr>))
      else grouped)"
  by pat_completeness auto
termination
proof (relation "measure (\<lambda>(s, dps, i, grouped). length dps - i)")
  show "wf (measure (\<lambda>(s, dps, i, grouped). length dps - i))" by simp
next
  fix s :: Session and dps :: "jsstring list" and i :: nat and grouped :: "Grouped list"
    and collected :: "jsstring list \<times> nat"
  assume less: "i < length dps" and c: "collected = collectChildren dps i []"
  have index: "j \<le> snd (collectChildren ds j cs)" for ds j cs
  proof (induction ds j cs rule: collectChildren.induct)
    case (1 ds j cs)
    show ?case
    proof (cases "j + 1 < length ds \<and> testNumbered (ds ! (j + 1))")
      case True
      with "1.IH"
      have "j + 1 \<le> snd (collectChildren ds (j + 1) (push cs (stripNumbered (ds ! (j + 1)))))"
        by simp
      moreover have "collectChildren ds j cs
          = collectChildren ds (j + 1) (push cs (stripNumbered (ds ! (j + 1))))"
        using True by (subst collectChildren.simps) simp
      ultimately show ?thesis by simp
    next
      case False
      then have "collectChildren ds j cs = (cs, j)"
        by (subst collectChildren.simps) auto
      then show ?thesis by simp
    qed
  qed
  have "i \<le> snd collected"
    unfolding c by (rule index)
  then show "((s, dps, snd collected + 1,
        push grouped
         \<lparr> point = dps ! i, children = fst collected,
           isVideoBreak = startsWith (dps ! i) (js ''Video Break:''),
           videoResource = videoResourceOf s (dps ! i) \<rparr>),
       s, dps, i, grouped) \<in> measure (\<lambda>(s, dps, i, grouped). length dps - i)"
    using less by simp
qed

declare groupLoop.simps [simp del]

definition groupDiscussionPoints ::
  "Session \<Rightarrow> (jsstring \<Rightarrow> bool) option \<Rightarrow> Grouped list" where
  "groupDiscussionPoints s filterDiscussionPoints =
     groupLoop s (displayedDiscussionPoints s filterDiscussionPoints) 0 []"

text \<open>
  What \<^verbatim>\<open>grouped.map((item, gIdx) => ...)\<close> renders for a group: a link for a video
  break with a resource, and otherwise the point with its number (the counter of the
  source is \<open>gIdx + 1\<close>) above its children.
\<close>

datatype GroupedBody =
    GroupedVideoLink jsstring jsstring
  | GroupedPoint nat jsstring "jsstring list"

definition renderGrouped :: "nat \<Rightarrow> Grouped \<Rightarrow> GroupedBody" where
  "renderGrouped gIdx item =
     (let currentNum = gIdx + 1 in
      case videoResource item of
        Some r \<Rightarrow>
          if isVideoBreak item then GroupedVideoLink (url r) (point item)
          else GroupedPoint currentNum (point item) (children item)
      | None \<Rightarrow> GroupedPoint currentNum (point item) (children item))"

definition renderGroups :: "Grouped list \<Rightarrow> GroupedBody list" where
  "renderGroups grouped = map (\<lambda>gIdx. renderGrouped gIdx (grouped ! gIdx)) [0..<length grouped]"

text \<open>A group as the pair of its point and its children.\<close>

definition pointAndChildren :: "Grouped \<Rightarrow> jsstring \<times> jsstring list" where
  "pointAndChildren g = (point g, children g)"

text \<open>
  The groups of a list as a function of the list alone: the head starts a group, the
  longest run of numbered points after it are its children.
\<close>

function groupsOf :: "jsstring list \<Rightarrow> (jsstring \<times> jsstring list) list" where
  "groupsOf [] = []"
| "groupsOf (p # ps) =
     (p, map stripNumbered (takeWhile testNumbered ps)) # groupsOf (dropWhile testNumbered ps)"
  by pat_completeness auto
termination
  by (relation "measure length") (auto simp: length_dropWhile_le less_Suc_eq_le)

text \<open>A session with a video break whose resource is among its resources.\<close>

definition videoSession :: Session where
  "videoSession =
     sampleSession\<lparr>discussionPoints := Some [js ''Warm up'', js ''Video Break: A'']\<rparr>"

section \<open>Properties of the reveal sequence\<close>

lemma forEachFrom_push:
  "forEachFrom i xs (\<lambda>x k items. push items (g x k)) acc
     = acc @ map (\<lambda>k. g (xs ! k) (i + k)) [0..<length xs]"
proof (induction xs arbitrary: i acc)
  case Nil
  show ?case by simp
next
  case (Cons x xs)
  have shift: "map (\<lambda>k. g ((x # xs) ! k) (i + k)) [0..<length (x # xs)]
      = g x i # map (\<lambda>k. g (xs ! k) (Suc i + k)) [0..<length xs]"
    by (simp add: upt_conv_Cons map_Suc_upt [symmetric] del: upt_Suc)
  show ?case
    by (simp only: forEachFrom.simps Cons.IH shift) (simp add: push_def)
qed

lemma forEach_push:
  "forEach xs (\<lambda>x k items. push items (g x k)) acc
     = acc @ map (\<lambda>k. g (xs ! k) k) [0..<length xs]"
  by (simp add: forEach_def forEachFrom_push)

lemma forEach_push_const:
  "forEach xs (\<lambda>x k items. push items (g x)) acc = acc @ map g xs"
proof -
  have "map (\<lambda>k. g (xs ! k)) [0..<length xs] = map g xs"
    by (rule nth_equalityI) simp_all
  then show ?thesis
    using forEach_push [of xs "\<lambda>x k. g x" acc] by simp
qed

lemma buildRevealItems_sequenceOf: "buildRevealItems s = sequenceOf s"
proof -
  have dps: "(case discussionPoints s of
                Some dps \<Rightarrow>
                  forEach dps (\<lambda>text i items. push items (DiscussionPoint text i (length dps))) acc
              | None \<Rightarrow> acc) = acc @ discussionItems s" for acc
    by (cases "discussionPoints s")
      (simp_all add: discussionItems_def orEmpty_def forEach_push)
  have intros: "(case introspections s of
                   Some intros \<Rightarrow>
                     forEach intros (\<lambda>intro i items. push items (IntrospectionItem intro)) acc
                 | None \<Rightarrow> acc) = acc @ map IntrospectionItem (orEmpty (introspections s))"
    for acc
    by (cases "introspections s") (simp_all add: orEmpty_def forEach_push_const)
  have res: "(case resources s of
                Some rs \<Rightarrow> if length rs > 0 then push acc (ResourcesItem rs) else acc
              | None \<Rightarrow> acc)
             = acc @ (if orEmpty (resources s) = [] then []
                      else [ResourcesItem (orEmpty (resources s))])" for acc
    by (cases "resources s") (simp_all add: orEmpty_def push_def)
  have desc: "(case description s of
                 Some d \<Rightarrow> if truthy d then push [] (Description d) else []
               | None \<Rightarrow> []) = descriptionItems s"
    by (cases "description s") (simp_all add: descriptionItems_def truthy_def push_def)
  show ?thesis
    unfolding buildRevealItems_def Let_def dps intros res desc sequenceOf_def
    by (simp add: push_def)
qed

lemma length_descriptionItems:
  "length (descriptionItems s)
     = (case description s of Some d \<Rightarrow> if d = [] then 0 else 1 | None \<Rightarrow> 0)"
  by (simp add: descriptionItems_def split: option.split)

lemma length_discussionItems:
  "length (discussionItems s) = length (orEmpty (discussionPoints s))"
  by (simp add: discussionItems_def Let_def)

text \<open>
  C1, as the code has it. \<^verbatim>\<open>buildRevealItems\<close> emits, in this order: a description item
  if the description is present and is not the empty string (the test of the source is
  the truthiness of the field), one core-topics item always, one discussion-point item
  per discussion point in source order (with its index and the number of points), one
  introspection item per introspection in source order, one resources item if the
  resources are present and not empty, one articles marker if the s has articles.
  Its length is the sum of these counts, a missing optional list counting as empty.
\<close>

theorem buildRevealItems_order_and_length:
  "buildRevealItems s =
     descriptionItems s
     @ [CoreTopics (coreTopics s)]
     @ discussionItems s
     @ map IntrospectionItem (orEmpty (introspections s))
     @ (if orEmpty (resources s) = [] then []
        else [ResourcesItem (orEmpty (resources s))])
     @ (if articles s = [] then [] else [ArticlesItem])
   \<and> length (buildRevealItems s) =
     (case description s of Some d \<Rightarrow> if d = [] then 0 else 1 | None \<Rightarrow> 0)
     + 1
     + length (orEmpty (discussionPoints s))
     + length (orEmpty (introspections s))
     + (if length (orEmpty (resources s)) > 0 then 1 else 0)
     + (if length (articles s) > 0 then 1 else 0)"
proof
  show "buildRevealItems s =
     descriptionItems s
     @ [CoreTopics (coreTopics s)]
     @ discussionItems s
     @ map IntrospectionItem (orEmpty (introspections s))
     @ (if orEmpty (resources s) = [] then []
        else [ResourcesItem (orEmpty (resources s))])
     @ (if articles s = [] then [] else [ArticlesItem])"
    using buildRevealItems_sequenceOf [of s] by (simp only: sequenceOf_def)
next
  show "length (buildRevealItems s) =
     (case description s of Some d \<Rightarrow> if d = [] then 0 else 1 | None \<Rightarrow> 0)
     + 1
     + length (orEmpty (discussionPoints s))
     + length (orEmpty (introspections s))
     + (if length (orEmpty (resources s)) > 0 then 1 else 0)
     + (if length (articles s) > 0 then 1 else 0)"
    by (simp add: buildRevealItems_sequenceOf sequenceOf_def length_descriptionItems
        length_discussionItems)
qed

text \<open>
  The claim as the specification words it counts one item for a description that is
  present. The s \<open>emptyDescriptionSession\<close> has a description, the empty string;
  its sequence is the core-topics item alone, of length 1 and not 1 + 1.
\<close>

theorem buildRevealItems_empty_description_counterexample:
  "description emptyDescriptionSession \<noteq> None
   \<and> buildRevealItems emptyDescriptionSession = [CoreTopics [js ''Listening'']]
   \<and> length (buildRevealItems emptyDescriptionSession)
       \<noteq> 1 + 1
         + length (orEmpty (discussionPoints emptyDescriptionSession))
         + length (orEmpty (introspections emptyDescriptionSession))
         + (if length (orEmpty (resources emptyDescriptionSession)) > 0 then 1 else 0)
         + (if length (articles emptyDescriptionSession) > 0 then 1 else 0)"
  by (simp add: buildRevealItems_def emptyDescriptionSession_def truthy_def push_def
      orEmpty_def)

section \<open>Properties of the session card\<close>

lemma totalSteps_update [simp]:
  "totalSteps (c\<lparr>step := n\<rparr>) = totalSteps c"
  "totalSteps (c\<lparr>isExpanded := b\<rparr>) = totalSteps c"
  by (simp_all add: totalSteps_def revealItems_def)

lemma totalSteps_nonneg: "0 \<le> totalSteps c"
  by (simp add: totalSteps_def)

lemma sample_total: "totalSteps sampleCard = 9"
  by (simp add: totalSteps_def revealItems_def sampleCard_def mount_def
      buildRevealItems_def sampleSession_def truthy_def push_def forEach_def js_def)

lemma sampleCard_fields:
  "isExpanded sampleCard" "step sampleCard = 0" "sampleCard\<lparr>step := 0\<rparr> = sampleCard"
  "totalSteps sampleCard = 9"
  by (simp_all add: sample_total) (simp_all add: sampleCard_def mount_def)


text \<open>
  A click handler that runs right after the render that created it reads the state
  itself, and then it saturates.
\<close>

lemma advance_after_render:
  "advance (step c) c = (if step c < totalSteps c then c\<lparr>step := step c + 1\<rparr> else c)"
  by (simp add: advance_def)

lemma goBack_after_render:
  "goBack (step c) c = (if step c > 0 then c\<lparr>step := step c - 1\<rparr> else c)"
  by (simp add: goBack_def)



text \<open>
  C5. From any state, \<open>revealAll\<close> sets \<open>step\<close> to \<open>totalSteps\<close>, whatever \<open>step\<close> was; the
  reset that follows sets it to 0; and the reset runs whenever an expanded card is
  rendered collapsed.
\<close>

theorem revealAll_then_reset:
  "revealAll c = c\<lparr>step := totalSteps c\<rparr>
   \<and> step (revealAll c) = totalSteps c
   \<and> step (resetEffect ((revealAll c)\<lparr>isExpanded := False\<rparr>)) = 0
   \<and> (isExpanded c \<longrightarrow> rerender False c = c\<lparr>isExpanded := False, step := 0\<rparr>)
   \<and> (isExpanded c \<longrightarrow> step (rerender False (revealAll c)) = 0)"
  by (simp add: revealAll_def resetEffect_def rerender_def Let_def)

theorem revealAll_then_reset_witness:
  "isExpanded (sampleCard\<lparr>step := 3\<rparr>)
   \<and> revealAll (sampleCard\<lparr>step := 3\<rparr>) = sampleCard\<lparr>step := 9\<rparr>
   \<and> rerender False (sampleCard\<lparr>step := 3\<rparr>) = sampleCard\<lparr>isExpanded := False\<rparr>
   \<and> step (rerender False (revealAll (sampleCard\<lparr>step := 3\<rparr>))) = 0"
proof -
  note th = revealAll_then_reset [of "sampleCard\<lparr>step := 3\<rparr>"]
  have e: "isExpanded (sampleCard\<lparr>step := 3\<rparr>)"
    by (simp add: sampleCard_fields)
  from th have all: "revealAll (sampleCard\<lparr>step := 3\<rparr>) = sampleCard\<lparr>step := 9\<rparr>"
    by (simp add: sampleCard_fields)
  from th e have "rerender False (sampleCard\<lparr>step := 3\<rparr>)
      = sampleCard\<lparr>step := 3\<rparr>\<lparr>isExpanded := False, step := 0\<rparr>"
    by blast
  then have collapse: "rerender False (sampleCard\<lparr>step := 3\<rparr>) = sampleCard\<lparr>isExpanded := False\<rparr>"
    by (simp add: sampleCard_def mount_def)
  from th e have zero: "step (rerender False (revealAll (sampleCard\<lparr>step := 3\<rparr>))) = 0"
    by blast
  show ?thesis using e all collapse zero by blast
qed

text \<open>
  C6. For \<open>renderItem\<close> at position \<open>i\<close> (counted from 0): the item is invisible exactly
  when \<open>i \<ge> step\<close>, visible and dimmed (past) exactly when \<open>i < step - 1\<close>, visible and
  emphasized (current) exactly when \<open>i = step - 1\<close>. At \<open>step = 0\<close> every item is invisible;
  at \<open>step = 1\<close> item 0 is current and no item is past; at \<open>step = totalSteps\<close> the last
  item is current and every earlier one is past.
\<close>

theorem visibility_tiers:
  "(visibility c item i = Invisible \<longleftrightarrow> step c \<le> int i)
   \<and> (visibility c item i = Past \<longleftrightarrow> int i < step c - 1)
   \<and> (visibility c item i = Current \<longleftrightarrow> int i = step c - 1)
   \<and> (step c = 0 \<longrightarrow> visibility c item i = Invisible)
   \<and> (step c = 1 \<longrightarrow> visibility c item 0 = Current \<and> visibility c item i \<noteq> Past)
   \<and> (step c = totalSteps c \<longrightarrow>
        (i + 1 = length (revealItems c) \<longrightarrow> visibility c item i = Current)
        \<and> (i + 1 < length (revealItems c) \<longrightarrow> visibility c item i = Past))"
  by (auto simp: visibility_def renderItem_def Let_def totalSteps_def)

theorem visibility_tiers_witness:
  "visibility (sampleCard\<lparr>step := 3\<rparr>) (revealItems sampleCard ! 0) 0 = Past
   \<and> visibility (sampleCard\<lparr>step := 3\<rparr>) (revealItems sampleCard ! 1) 1 = Past
   \<and> visibility (sampleCard\<lparr>step := 3\<rparr>) (revealItems sampleCard ! 2) 2 = Current
   \<and> visibility (sampleCard\<lparr>step := 3\<rparr>) (revealItems sampleCard ! 3) 3 = Invisible
   \<and> visibility (sampleCard\<lparr>step := 0\<rparr>) (revealItems sampleCard ! 0) 0 = Invisible
   \<and> visibility (sampleCard\<lparr>step := 1\<rparr>) (revealItems sampleCard ! 0) 0 = Current
   \<and> visibility (sampleCard\<lparr>step := 9\<rparr>) (revealItems sampleCard ! 8) 8 = Current
   \<and> visibility (sampleCard\<lparr>step := 9\<rparr>) (revealItems sampleCard ! 7) 7 = Past"
  using visibility_tiers [of "sampleCard\<lparr>step := 3\<rparr>" "revealItems sampleCard ! 0" 0]
    visibility_tiers [of "sampleCard\<lparr>step := 3\<rparr>" "revealItems sampleCard ! 1" 1]
    visibility_tiers [of "sampleCard\<lparr>step := 3\<rparr>" "revealItems sampleCard ! 2" 2]
    visibility_tiers [of "sampleCard\<lparr>step := 3\<rparr>" "revealItems sampleCard ! 3" 3]
    visibility_tiers [of "sampleCard\<lparr>step := 0\<rparr>" "revealItems sampleCard ! 0" 0]
    visibility_tiers [of "sampleCard\<lparr>step := 1\<rparr>" "revealItems sampleCard ! 0" 0]
    visibility_tiers [of "sampleCard\<lparr>step := 9\<rparr>" "revealItems sampleCard ! 8" 8]
    visibility_tiers [of "sampleCard\<lparr>step := 9\<rparr>" "revealItems sampleCard ! 7" 7]
  by (simp add: sampleCard_fields)

text \<open>
  What keeps \<open>0 \<le> step \<le> totalSteps\<close>: the mount, \<open>revealAll\<close>, the reset, a render by the
  parent, every key, and a click handler that reads the state itself.
\<close>

lemma stepInRange_kept:
  assumes "stepInRange c"
  shows "stepInRange (revealAll c)" and "stepInRange (resetEffect c)"
    and "stepInRange (rerender expanded c)" and "stepInRange (keydown key c)"
    and "stepInRange (advance (step c) c)" and "stepInRange (goBack (step c) c)"
  using assms
  by (auto simp: stepInRange_def advance_def goBack_def revealAll_def keydown_def rerender_def
      resetEffect_def Let_def totalSteps_nonneg)

lemma stepInRange_mount: "stepInRange (mount s as expanded)"
  by (simp add: stepInRange_def mount_def totalSteps_def)


lemma rounding_bounds:
  assumes "rounding rnd" and "0 \<le> x" and "x \<le> y" and "0 < y"
  shows "0 \<le> rnd (rnd (x / y) * 100)" and "rnd (rnd (x / y) * 100) \<le> 100"
proof -
  from assms(1) have m: "\<And>a b. a \<le> b \<Longrightarrow> rnd a \<le> rnd b"
    and r0: "rnd 0 = 0" and r1: "rnd 1 = 1" and r100: "rnd 100 = 100"
    by (auto simp: rounding_def mono_def)
  have "0 \<le> x / y" and "x / y \<le> 1" using assms(2-4) by simp_all
  then have q: "0 \<le> rnd (x / y)" "rnd (x / y) \<le> 1"
    using m [of 0 "x / y"] m [of "x / y" 1] r0 r1 by simp_all
  then have "0 \<le> rnd (x / y) * 100" and "rnd (x / y) * 100 \<le> 100" by simp_all
  then show "0 \<le> rnd (rnd (x / y) * 100)" and "rnd (rnd (x / y) * 100) \<le> 100"
    using m [of 0 "rnd (x / y) * 100"] m [of "rnd (x / y) * 100" 100] r0 r100 by simp_all
qed

text \<open>
  C10. The width of the progress bar never divides by zero. For \<open>0 \<le> step \<le> totalSteps\<close>
  the expression is the rounded \<open>(step / totalSteps) * 100\<close> when \<open>totalSteps > 0\<close> and 0
  when \<open>totalSteps = 0\<close>, and it is always a finite number between 0 and 100. The width
  a card shows is that expression at its \<open>step\<close> and its \<open>totalSteps\<close>: the rounded
  \<open>(step / totalSteps) * 100\<close> of the card when its \<open>totalSteps\<close> is positive, 0 when it
  is 0, and a finite number between 0 and 100 in both cases.
\<close>

theorem progressWidth_total:
  assumes "rounding rnd" and "0 \<le> stepVal" and "stepVal \<le> totalVal"
  shows "(totalVal > 0 \<longrightarrow>
            progressWidth rnd stepVal totalVal
              = Num (rnd (rnd (real_of_int stepVal / real_of_int totalVal) * 100)))
       \<and> (totalVal = 0 \<longrightarrow> progressWidth rnd stepVal totalVal = Num 0)
       \<and> (\<exists>w. progressWidth rnd stepVal totalVal = Num w \<and> 0 \<le> w \<and> w \<le> 100)
       \<and> (step c = stepVal \<and> totalSteps c = totalVal \<longrightarrow>
            cardProgress rnd c = progressWidth rnd stepVal totalVal
            \<and> (totalSteps c > 0 \<longrightarrow>
                  cardProgress rnd c
                    = Num (rnd (rnd (real_of_int (step c) / real_of_int (totalSteps c)) * 100)))
            \<and> (totalSteps c = 0 \<longrightarrow> cardProgress rnd c = Num 0)
            \<and> (\<exists>w. cardProgress rnd c = Num w \<and> 0 \<le> w \<and> w \<le> 100))"
proof -
  have width: "(totalVal > 0 \<longrightarrow>
            progressWidth rnd stepVal totalVal
              = Num (rnd (rnd (real_of_int stepVal / real_of_int totalVal) * 100)))
       \<and> (totalVal = 0 \<longrightarrow> progressWidth rnd stepVal totalVal = Num 0)
       \<and> (\<exists>w. progressWidth rnd stepVal totalVal = Num w \<and> 0 \<le> w \<and> w \<le> 100)"
  proof (cases "totalVal > 0")
    case True
    with assms rounding_bounds [of rnd "real_of_int stepVal" "real_of_int totalVal"]
    show ?thesis by (simp add: progressWidth_def)
  next
    case False
    with assms show ?thesis by (simp add: progressWidth_def)
  qed
  have "cardProgress rnd c = progressWidth rnd stepVal totalVal
      \<and> (totalSteps c > 0 \<longrightarrow>
            cardProgress rnd c
              = Num (rnd (rnd (real_of_int (step c) / real_of_int (totalSteps c)) * 100)))
      \<and> (totalSteps c = 0 \<longrightarrow> cardProgress rnd c = Num 0)
      \<and> (\<exists>w. cardProgress rnd c = Num w \<and> 0 \<le> w \<and> w \<le> 100)"
    if eq: "step c = stepVal \<and> totalSteps c = totalVal"
  proof -
    have same: "cardProgress rnd c = progressWidth rnd stepVal totalVal"
      using eq by (simp add: cardProgress_def)
    from width eq show ?thesis
      unfolding same by auto
  qed
  with width show ?thesis by blast
qed

theorem progressWidth_total_witness:
  "rounding (\<lambda>x. x) \<and> (0::int) \<le> 3 \<and> (3::int) \<le> 9
   \<and> progressWidth (\<lambda>x. x) 3 9 = Num (3 / 9 * 100)
   \<and> progressWidth (\<lambda>x. x) 0 0 = Num 0
   \<and> (\<exists>w. progressWidth (\<lambda>x. x) 3 9 = Num w \<and> 0 \<le> w \<and> w \<le> 100)
   \<and> step (sampleCard\<lparr>step := 3\<rparr>) = 3 \<and> totalSteps (sampleCard\<lparr>step := 3\<rparr>) = 9
   \<and> cardProgress (\<lambda>x. x) (sampleCard\<lparr>step := 3\<rparr>) = Num (3 / 9 * 100)
   \<and> (\<exists>w. cardProgress (\<lambda>x. x) (sampleCard\<lparr>step := 3\<rparr>) = Num w \<and> 0 \<le> w \<and> w \<le> 100)"
proof -
  have r: "rounding (\<lambda>x. x)" by (simp add: rounding_def mono_def)
  have a: "(0::int) \<le> 3" "(3::int) \<le> 9" "(0::int) \<le> 0" by simp_all
  have card: "step (sampleCard\<lparr>step := 3\<rparr>) = 3 \<and> totalSteps (sampleCard\<lparr>step := 3\<rparr>) = 9"
    by (simp add: sampleCard_fields)
  note t1 = progressWidth_total [OF r a(1) a(2), of "sampleCard\<lparr>step := 3\<rparr>"]
  note t2 = progressWidth_total [OF r a(3) a(3)]
  from t1 have p1: "progressWidth (\<lambda>x. x) 3 9 = Num (3 / 9 * 100)" by simp
  from t1 have p2: "\<exists>w. progressWidth (\<lambda>x. x) 3 9 = Num w \<and> 0 \<le> w \<and> w \<le> 100" by blast
  from t2 have p3: "progressWidth (\<lambda>x. x) 0 0 = Num 0" by simp
  from t1 card
  have "cardProgress (\<lambda>x. x) (sampleCard\<lparr>step := 3\<rparr>) = progressWidth (\<lambda>x. x) 3 9"
    by blast
  with p1 have p4: "cardProgress (\<lambda>x. x) (sampleCard\<lparr>step := 3\<rparr>) = Num (3 / 9 * 100)"
    by simp
  from t1 card
  have p5: "\<exists>w. cardProgress (\<lambda>x. x) (sampleCard\<lparr>step := 3\<rparr>) = Num w \<and> 0 \<le> w \<and> w \<le> 100"
    by blast
  show ?thesis using r a p1 p2 p3 card p4 p5 by blast
qed

section \<open>Properties of the drill-down navigator\<close>

text \<open>
  C8. The navigator starts on the grid; opening a section from the grid makes that
  section the active one (\<open>Culture\<close>, for one); going back from a section that is not the
  grid gives the grid; going back on the grid leaves the grid the active section.
\<close>

theorem navigator_transitions:
  "activeSection initialGrid = Grid
   \<and> (activeSection g = Grid \<longrightarrow> activeSection (openSection section g) = section)
   \<and> activeSection (openSection Culture initialGrid) = Culture
   \<and> (activeSection g \<noteq> Grid \<longrightarrow> activeSection (goBackToGrid g) = Grid)
   \<and> (activeSection g = Grid \<longrightarrow> activeSection (goBackToGrid g) = Grid)"
  by (simp add: initialGrid_def openSection_def goBackToGrid_def)

theorem navigator_transitions_witness:
  "activeSection initialGrid = Grid
   \<and> activeSection (openSection Culture initialGrid) = Culture
   \<and> activeSection (openSection Culture initialGrid) \<noteq> Grid
   \<and> activeSection (goBackToGrid (openSection Culture initialGrid)) = Grid
   \<and> activeSection (goBackToGrid initialGrid) = Grid"
  using navigator_transitions [of initialGrid Culture]
    navigator_transitions [of "openSection Culture initialGrid" Culture]
  by simp

section \<open>Properties of the grouped display\<close>

lemma collectChildren_eq:
  "collectChildren dps i cs =
     (cs @ map stripNumbered (takeWhile testNumbered (drop (Suc i) dps)),
      i + length (takeWhile testNumbered (drop (Suc i) dps)))"
proof (induction dps i cs rule: collectChildren.induct)
  case (1 dps i children)
  show ?case
  proof (cases "i + 1 < length dps \<and> testNumbered (dps ! (i + 1))")
    case True
    then have d: "drop (Suc i) dps = dps ! Suc i # drop (Suc (Suc i)) dps"
      by (simp add: Cons_nth_drop_Suc)
    have "collectChildren dps i children
        = collectChildren dps (i + 1) (push children (stripNumbered (dps ! (i + 1))))"
      using True by (subst collectChildren.simps) simp
    also have "\<dots> = (push children (stripNumbered (dps ! (i + 1)))
          @ map stripNumbered (takeWhile testNumbered (drop (Suc (i + 1)) dps)),
        i + 1 + length (takeWhile testNumbered (drop (Suc (i + 1)) dps)))"
      using True by (intro "1.IH") simp_all
    finally show ?thesis
      using True by (simp add: d push_def)
  next
    case False
    then have tw: "takeWhile testNumbered (drop (Suc i) dps) = []"
      by (cases "Suc i < length dps") (simp_all add: takeWhile_eq_Nil_iff hd_drop_conv_nth)
    have "collectChildren dps i children = (children, i)"
      using False by (subst collectChildren.simps) auto
    then show ?thesis by (simp add: tw)
  qed
qed

lemma groupLoop_groupsOf:
  "map pointAndChildren (groupLoop s dps i grouped)
     = map pointAndChildren grouped @ groupsOf (drop i dps)"
proof (induction s dps i grouped rule: groupLoop.induct)
  case (1 s dps i grouped)
  show ?case
  proof (cases "i < length dps")
    case False
    then show ?thesis by (subst groupLoop.simps) simp
  next
    case True
    define tw where "tw = takeWhile testNumbered (drop (Suc i) dps)"
    define g where "g = \<lparr> point = dps ! i, children = map stripNumbered tw,
        isVideoBreak = startsWith (dps ! i) (js ''Video Break:''),
        videoResource = videoResourceOf s (dps ! i) \<rparr>"
    have coll: "collectChildren dps i [] = (map stripNumbered tw, i + length tw)"
      by (simp add: collectChildren_eq tw_def)
    have unfold: "groupLoop s dps i grouped = groupLoop s dps (i + length tw + 1) (push grouped g)"
      using True by (subst groupLoop.simps) (simp add: coll g_def Let_def)
    have ih: "map pointAndChildren (groupLoop s dps (i + length tw + 1) (push grouped g))
        = map pointAndChildren (push grouped g) @ groupsOf (drop (i + length tw + 1) dps)"
      using "1.IH" [OF True coll [symmetric]] by (simp add: g_def)
    have d: "drop i dps = dps ! i # drop (Suc i) dps"
      using True by (simp add: Cons_nth_drop_Suc)
    have dw: "dropWhile testNumbered (drop (Suc i) dps) = drop (i + length tw + 1) dps"
      by (simp add: dropWhile_eq_drop tw_def add.commute)
    have go: "groupsOf (drop i dps) = (dps ! i, map stripNumbered tw)
        # groupsOf (drop (i + length tw + 1) dps)"
      by (simp only: d groupsOf.simps dw tw_def [symmetric])
    have "map pointAndChildren (groupLoop s dps i grouped)
        = map pointAndChildren (push grouped g) @ groupsOf (drop (i + length tw + 1) dps)"
      by (simp only: unfold ih)
    also have "\<dots> = map pointAndChildren grouped @ groupsOf (drop i dps)"
      by (simp only: go) (simp add: push_def pointAndChildren_def g_def)
    finally show ?thesis .
  qed
qed

lemma takeWhile_dropWhile_append:
  assumes "rest = [] \<or> \<not> P (hd rest)"
  shows "takeWhile P (ps @ rest) = takeWhile P ps"
    and "dropWhile P (ps @ rest) = dropWhile P ps @ rest"
  using assms by (induction ps) (auto simp: takeWhile_eq_Nil_iff dropWhile_eq_self_iff)

lemma groupsOf_append:
  "rest = [] \<or> \<not> testNumbered (hd rest) \<Longrightarrow> groupsOf (pre @ rest) = groupsOf pre @ groupsOf rest"
proof (induction pre rule: groupsOf.induct)
  case 1
  show ?case by simp
next
  case (2 p ps)
  then show ?case by (simp add: takeWhile_dropWhile_append)
qed

lemma groupsOf_run:
  assumes "\<not> testNumbered q" and "\<forall>c \<in> set cs. testNumbered c"
    and "post = [] \<or> \<not> testNumbered (hd post)"
  shows "groupsOf (pre @ q # cs @ post) = groupsOf pre @ (q, map stripNumbered cs) # groupsOf post"
proof -
  have "takeWhile testNumbered (cs @ post) = cs"
    using assms(2,3) by (cases post) simp_all
  moreover have "dropWhile testNumbered (cs @ post) = post"
    using assms(2,3) by (cases post) simp_all
  ultimately have "groupsOf (q # cs @ post) = (q, map stripNumbered cs) # groupsOf post"
    by simp
  moreover have "groupsOf (pre @ q # cs @ post) = groupsOf pre @ groupsOf (q # cs @ post)"
    using assms(1) by (intro groupsOf_append) simp
  ultimately show ?thesis by simp
qed

lemma filter_dropWhile_head:
  "filter (\<lambda>d. \<not> P d) ps
     = (case dropWhile P ps of [] \<Rightarrow> [] | x # xs \<Rightarrow> x # filter (\<lambda>d. \<not> P d) xs)"
  by (induction ps) simp_all

lemma groupsOf_points:
  "map fst (groupsOf dps)
     = (case dps of [] \<Rightarrow> [] | p # ps \<Rightarrow> p # filter (\<lambda>d. \<not> testNumbered d) ps)"
proof (induction dps rule: groupsOf.induct)
  case 1
  show ?case by simp
next
  case (2 p ps)
  have "map fst (groupsOf (p # ps)) = p # map fst (groupsOf (dropWhile testNumbered ps))"
    by simp
  also have "\<dots> = p # (case dropWhile testNumbered ps of [] \<Rightarrow> []
      | x # xs \<Rightarrow> x # filter (\<lambda>d. \<not> testNumbered d) xs)"
    by (simp only: "2.IH")
  also have "\<dots> = p # filter (\<lambda>d. \<not> testNumbered d) ps"
    by (simp only: filter_dropWhile_head [of testNumbered ps])
  finally show ?case by simp
qed

lemma numbered_samples:
  "\<not> testNumbered (js ''Point A'')" "testNumbered (js ''1. Sub one'')"
  "testNumbered (js ''2. Sub two'')" "\<not> testNumbered (js ''Point B'')"
  "stripNumbered (js ''1. Sub one'') = js ''Sub one''"
  "stripNumbered (js ''2. Sub two'') = js ''Sub two''"
  by (simp_all add: testNumbered_def stripNumbered_def matchNumbered_def js_def isDigit_def
      isWhiteSpace_def)

lemma groupLoop_points:
  "map point (groupLoop s dps 0 [])
     = (case dps of [] \<Rightarrow> [] | p # ps \<Rightarrow> p # filter (\<lambda>d. \<not> testNumbered d) ps)"
proof -
  have "map point (groupLoop s dps 0 []) = map fst (map pointAndChildren (groupLoop s dps 0 []))"
    by (simp add: pointAndChildren_def)
  also have "\<dots> = map fst (groupsOf dps)"
    by (simp add: groupLoop_groupsOf)
  finally show ?thesis
    by (simp only: groupsOf_points)
qed

text \<open>
  C2, as the code has it. The grouping is that of \<^verbatim>\<open>SessionContentDisplay\<close>;
  \<^verbatim>\<open>buildRevealItems\<close> groups nothing. In the grouped list, a point \<open>q\<close> that does not match
  \<^verbatim>\<open>/^\d+\.\s/\<close>, followed by matching points \<open>cs\<close> up to the next point that does not
  match (or the end of the list), is one top-level item \<open>q\<close> whose children are \<open>cs\<close>, each
  with the matched prefix removed: every matching point after a non-matching one is a
  child of the nearest non-matching point before it. The top-level items are the first
  point of the list and every later point that does not match; when the first point does
  not match, they are exactly the points that do not match. For the input
  \<^verbatim>\<open>["Point A", "1. Sub one", "2. Sub two", "Point B"]\<close> the groups are \<open>Point A\<close> with
  the children \<open>Sub one\<close> and \<open>Sub two\<close>, then \<open>Point B\<close> with none.
\<close>

theorem grouping_under_preceding_point:
  "(\<not> testNumbered q \<and> (\<forall>c \<in> set cs. testNumbered c)
      \<and> (post = [] \<or> \<not> testNumbered (hd post)) \<longrightarrow>
      map pointAndChildren (groupLoop s (pre @ q # cs @ post) 0 [])
        = map pointAndChildren (groupLoop s pre 0 [])
          @ (q, map stripNumbered cs) # map pointAndChildren (groupLoop s post 0 []))
   \<and> map point (groupLoop s dps 0 [])
       = (case dps of [] \<Rightarrow> [] | p # ps \<Rightarrow> p # filter (\<lambda>d. \<not> testNumbered d) ps)
   \<and> (dps \<noteq> [] \<and> \<not> testNumbered (hd dps) \<longrightarrow>
       map point (groupLoop s dps 0 []) = filter (\<lambda>d. \<not> testNumbered d) dps)
   \<and> map pointAndChildren (groupDiscussionPoints sampleSession None)
       = [(js ''Point A'', [js ''Sub one'', js ''Sub two'']), (js ''Point B'', [])]"
proof (intro conjI impI)
  assume "\<not> testNumbered q \<and> (\<forall>c \<in> set cs. testNumbered c)
      \<and> (post = [] \<or> \<not> testNumbered (hd post))"
  then show "map pointAndChildren (groupLoop s (pre @ q # cs @ post) 0 [])
        = map pointAndChildren (groupLoop s pre 0 [])
          @ (q, map stripNumbered cs) # map pointAndChildren (groupLoop s post 0 [])"
    by (simp add: groupLoop_groupsOf groupsOf_run)
next
  show "map point (groupLoop s dps 0 [])
       = (case dps of [] \<Rightarrow> [] | p # ps \<Rightarrow> p # filter (\<lambda>d. \<not> testNumbered d) ps)"
    by (rule groupLoop_points)
next
  assume "dps \<noteq> [] \<and> \<not> testNumbered (hd dps)"
  then show "map point (groupLoop s dps 0 []) = filter (\<lambda>d. \<not> testNumbered d) dps"
    by (cases dps) (simp_all add: groupLoop_points)
next
  have "displayedDiscussionPoints sampleSession None
      = [js ''Point A'', js ''1. Sub one'', js ''2. Sub two'', js ''Point B'']"
    by (simp add: displayedDiscussionPoints_def sampleSession_def)
  then show "map pointAndChildren (groupDiscussionPoints sampleSession None)
       = [(js ''Point A'', [js ''Sub one'', js ''Sub two'']), (js ''Point B'', [])]"
    by (simp add: groupDiscussionPoints_def groupLoop_groupsOf numbered_samples)
qed

theorem grouping_under_preceding_point_witness:
  "\<not> testNumbered (js ''Point A'') \<and> testNumbered (js ''1. Sub one'')
   \<and> testNumbered (js ''2. Sub two'') \<and> \<not> testNumbered (js ''Point B'')
   \<and> map pointAndChildren
        (groupLoop sampleSession
           [js ''Point A'', js ''1. Sub one'', js ''2. Sub two'', js ''Point B''] 0 [])
       = (js ''Point A'', [js ''Sub one'', js ''Sub two''])
         # map pointAndChildren (groupLoop sampleSession [js ''Point B''] 0 [])
   \<and> map point
        (groupLoop sampleSession
           [js ''Point A'', js ''1. Sub one'', js ''2. Sub two'', js ''Point B''] 0 [])
       = [js ''Point A'', js ''Point B'']"
proof -
  note th = grouping_under_preceding_point [of "js ''Point A''"
      "[js ''1. Sub one'', js ''2. Sub two'']" "[js ''Point B'']" sampleSession "[]"
      "[js ''Point A'', js ''1. Sub one'', js ''2. Sub two'', js ''Point B'']"]
  have empty: "groupLoop sampleSession [] 0 [] = []"
    by (subst groupLoop.simps) simp
  from th have run: "map pointAndChildren
        (groupLoop sampleSession
           [js ''Point A'', js ''1. Sub one'', js ''2. Sub two'', js ''Point B''] 0 [])
       = (js ''Point A'', [js ''Sub one'', js ''Sub two''])
         # map pointAndChildren (groupLoop sampleSession [js ''Point B''] 0 [])"
    by (simp add: numbered_samples empty)
  from th have tops: "map point
        (groupLoop sampleSession
           [js ''Point A'', js ''1. Sub one'', js ''2. Sub two'', js ''Point B''] 0 [])
       = [js ''Point A'', js ''Point B'']"
    by (simp add: numbered_samples)
  show ?thesis using run tops by (simp add: numbered_samples)
qed

text \<open>
  The claim as the specification words it fails in two ways. The sequence that
  \<^verbatim>\<open>buildRevealItems\<close> builds has the numbered points \<open>1. Sub one\<close> and \<open>2. Sub two\<close> as
  items of their own, beside \<open>Point A\<close> and \<open>Point B\<close>. And in the grouped list a numbered
  point that comes first is a top-level item, as there is no point before it.
\<close>

theorem grouping_counterexample:
  "testNumbered (js ''1. Sub one'')
   \<and> buildRevealItems sampleSession
       = [Description (js ''Giving feedback''),
          CoreTopics [js ''Listening'', js ''Candour''],
          DiscussionPoint (js ''Point A'') 0 4,
          DiscussionPoint (js ''1. Sub one'') 1 4,
          DiscussionPoint (js ''2. Sub two'') 2 4,
          DiscussionPoint (js ''Point B'') 3 4,
          IntrospectionItem \<lparr> title = js ''Reflect'', prompts = [js ''Why?''] \<rparr>,
          ResourcesItem [\<lparr> SessionResource.title = js ''A'', url = js ''https://a'', source = None \<rparr>],
          ArticlesItem]
   \<and> map pointAndChildren (groupLoop sampleSession [js ''1. Sub one'', js ''Point B''] 0 [])
       = [(js ''1. Sub one'', []), (js ''Point B'', [])]"
proof -
  have "buildRevealItems sampleSession
       = [Description (js ''Giving feedback''),
          CoreTopics [js ''Listening'', js ''Candour''],
          DiscussionPoint (js ''Point A'') 0 4,
          DiscussionPoint (js ''1. Sub one'') 1 4,
          DiscussionPoint (js ''2. Sub two'') 2 4,
          DiscussionPoint (js ''Point B'') 3 4,
          IntrospectionItem \<lparr> title = js ''Reflect'', prompts = [js ''Why?''] \<rparr>,
          ResourcesItem [\<lparr> SessionResource.title = js ''A'', url = js ''https://a'', source = None \<rparr>],
          ArticlesItem]"
    by (simp add: buildRevealItems_def sampleSession_def truthy_def push_def forEach_def js_def)
  moreover have "map pointAndChildren
      (groupLoop sampleSession [js ''1. Sub one'', js ''Point B''] 0 [])
       = [(js ''1. Sub one'', []), (js ''Point B'', [])]"
    by (simp add: groupLoop_groupsOf numbered_samples)
  ultimately show ?thesis by (simp add: numbered_samples)
qed

section \<open>Properties of the video break\<close>

lemma videoResourceOf_marker:
  "videoResourceOf s (js ''Video Break: '' @ rest)
     = find (\<lambda>r. SessionResource.title r = rest) (orEmpty (resources s))"
  by (cases "resources s") (simp_all add: videoResourceOf_def startsWith_def js_def orEmpty_def)

lemma startsWith_marker: "startsWith (js ''Video Break: '' @ rest) (js ''Video Break:'')"
  by (simp add: startsWith_def js_def)

lemma groupLoop_video:
  "g \<in> set (groupLoop s dps i grouped) \<Longrightarrow>
     g \<in> set grouped
     \<or> (isVideoBreak g = startsWith (point g) (js ''Video Break:'')
        \<and> videoResource g = videoResourceOf s (point g))"
proof (induction s dps i grouped rule: groupLoop.induct)
  case (1 s dps i grouped)
  show ?case
  proof (cases "i < length dps")
    case False
    with "1.prems" show ?thesis by (subst (asm) groupLoop.simps) simp
  next
    case True
    define collected where "collected = collectChildren dps i []"
    define item where "item = \<lparr> point = dps ! i, children = fst collected,
        isVideoBreak = startsWith (dps ! i) (js ''Video Break:''),
        videoResource = videoResourceOf s (dps ! i) \<rparr>"
    have "groupLoop s dps i grouped = groupLoop s dps (snd collected + 1) (push grouped item)"
      using True by (subst groupLoop.simps) (simp add: collected_def item_def Let_def)
    with "1.prems" have "g \<in> set (groupLoop s dps (snd collected + 1) (push grouped item))"
      by simp
    from "1.IH" [OF True collected_def this [unfolded item_def]]
    show ?thesis by (auto simp: push_def)
  qed
qed

lemma nth_buildRevealItems_discussionPoint:
  assumes "discussionPoints s = Some dps" and "i < length dps"
  shows "buildRevealItems s ! (length (descriptionItems s) + 1 + i)
           = DiscussionPoint (dps ! i) i (length dps)"
proof -
  have "discussionItems s ! i = DiscussionPoint (dps ! i) i (length dps)"
    and "i < length (discussionItems s)"
    using assms by (simp_all add: discussionItems_def orEmpty_def)
  then show ?thesis
    by (simp add: buildRevealItems_sequenceOf sequenceOf_def nth_append)
qed

lemma videoSession_fields:
  "discussionPoints videoSession = Some [js ''Warm up'', js ''Video Break: A'']"
  "resources videoSession
     = Some [\<lparr> SessionResource.title = js ''A'', url = js ''https://a'', source = None \<rparr>]"
  "description videoSession = Some (js ''Giving feedback'')"
  by (simp_all add: videoSession_def sampleSession_def)

text \<open>
  C9, as the code has it. Every discussion point, a video break or not, is a
  discussion-point item of the built sequence, at its place among the discussion points.
  When a point whose text is \<^verbatim>\<open>Video Break: \<close> (the marker and one space) followed by
  \<open>rest\<close> is rendered, by \<^verbatim>\<open>renderItem\<close> of the session card or as a group of
  \<^verbatim>\<open>SessionContentDisplay\<close>, the first resource of the session whose title is equal to
  \<open>rest\<close> is looked up: if there is one, the point is rendered as a link to the URL of
  that resource, and if there is none (or the session has no resources), as a plain
  numbered point.
\<close>

theorem video_break_resolution:
  "(discussionPoints s = Some dps \<and> i < length dps \<longrightarrow>
      buildRevealItems s ! (length (descriptionItems s) + 1 + i)
        = DiscussionPoint (dps ! i) i (length dps))
   \<and> (t = js ''Video Break: '' @ rest \<and> session c = s \<longrightarrow>
        renderBody c (DiscussionPoint t k n)
          = (case find (\<lambda>r. SessionResource.title r = rest) (orEmpty (resources s)) of
               Some r \<Rightarrow> VideoLink (url r) t
             | None \<Rightarrow> NumberedPoint (k + 1) t))
   \<and> (t = js ''Video Break: '' @ rest \<and> session c = s \<and> int idx < step c \<longrightarrow>
        map_option snd (renderItem c (DiscussionPoint t k n) idx)
          = Some (case find (\<lambda>r. SessionResource.title r = rest) (orEmpty (resources s)) of
                    Some r \<Rightarrow> VideoLink (url r) t
                  | None \<Rightarrow> NumberedPoint (k + 1) t))
   \<and> (t = js ''Video Break: '' @ rest \<and> g \<in> set (groupDiscussionPoints s flt)
        \<and> point g = t \<longrightarrow>
        renderGrouped gIdx g
          = (case find (\<lambda>r. SessionResource.title r = rest) (orEmpty (resources s)) of
               Some r \<Rightarrow> GroupedVideoLink (url r) t
             | None \<Rightarrow> GroupedPoint (gIdx + 1) t (children g)))"
proof (intro conjI impI)
  assume "discussionPoints s = Some dps \<and> i < length dps"
  then show "buildRevealItems s ! (length (descriptionItems s) + 1 + i)
      = DiscussionPoint (dps ! i) i (length dps)"
    using nth_buildRevealItems_discussionPoint [of s dps i] by simp
next
  assume "t = js ''Video Break: '' @ rest \<and> session c = s"
  then show "renderBody c (DiscussionPoint t k n)
      = (case find (\<lambda>r. SessionResource.title r = rest) (orEmpty (resources s)) of
           Some r \<Rightarrow> VideoLink (url r) t
         | None \<Rightarrow> NumberedPoint (k + 1) t)"
    by (simp add: renderBody_def videoResourceOf_marker startsWith_marker Let_def
        split: option.split)
next
  assume a: "t = js ''Video Break: '' @ rest \<and> session c = s \<and> int idx < step c"
  then have "renderBody c (DiscussionPoint t k n)
      = (case find (\<lambda>r. SessionResource.title r = rest) (orEmpty (resources s)) of
           Some r \<Rightarrow> VideoLink (url r) t
         | None \<Rightarrow> NumberedPoint (k + 1) t)"
    by (simp add: renderBody_def videoResourceOf_marker startsWith_marker Let_def
        split: option.split)
  with a show "map_option snd (renderItem c (DiscussionPoint t k n) idx)
      = Some (case find (\<lambda>r. SessionResource.title r = rest) (orEmpty (resources s)) of
                Some r \<Rightarrow> VideoLink (url r) t
              | None \<Rightarrow> NumberedPoint (k + 1) t)"
    by (simp add: renderItem_def Let_def)
next
  assume a: "t = js ''Video Break: '' @ rest \<and> g \<in> set (groupDiscussionPoints s flt)
      \<and> point g = t"
  then have "isVideoBreak g = startsWith (point g) (js ''Video Break:'')
      \<and> videoResource g = videoResourceOf s (point g)"
    using groupLoop_video [of g s "displayedDiscussionPoints s flt" 0 "[]"]
    by (simp add: groupDiscussionPoints_def)
  with a show "renderGrouped gIdx g
      = (case find (\<lambda>r. SessionResource.title r = rest) (orEmpty (resources s)) of
           Some r \<Rightarrow> GroupedVideoLink (url r) t
         | None \<Rightarrow> GroupedPoint (gIdx + 1) t (children g))"
    by (simp add: renderGrouped_def videoResourceOf_marker startsWith_marker Let_def
        split: option.split)
qed

theorem video_break_resolution_witness:
  "js ''Video Break: A'' = js ''Video Break: '' @ js ''A''
   \<and> discussionPoints videoSession = Some [js ''Warm up'', js ''Video Break: A'']
   \<and> buildRevealItems videoSession ! 3 = DiscussionPoint (js ''Video Break: A'') 1 2
   \<and> renderBody (mount videoSession [] True) (DiscussionPoint (js ''Video Break: A'') 1 2)
       = VideoLink (js ''https://a'') (js ''Video Break: A'')
   \<and> map_option snd
        (renderItem ((mount videoSession [] True)\<lparr>step := 4\<rparr>)
           (DiscussionPoint (js ''Video Break: A'') 1 2) 3)
       = Some (VideoLink (js ''https://a'') (js ''Video Break: A''))
   \<and> point (groupDiscussionPoints videoSession None ! 1) = js ''Video Break: A''
   \<and> renderGrouped 1 (groupDiscussionPoints videoSession None ! 1)
       = GroupedVideoLink (js ''https://a'') (js ''Video Break: A'')"
proof -
  define t where "t = js ''Video Break: A''"
  define dps where "dps = [js ''Warm up'', t]"
  define c where "c = (mount videoSession [] True)\<lparr>step := 4\<rparr>"
  define g where "g = groupDiscussionPoints videoSession None ! 1"
  define found where "found = find (\<lambda>r. SessionResource.title r = js ''A'')
      (orEmpty (resources videoSession))"
  have marker: "t = js ''Video Break: '' @ js ''A''"
    by (simp add: t_def js_def)
  have unnumbered: "\<not> testNumbered t"
    by (simp add: t_def testNumbered_def matchNumbered_def js_def isDigit_def)
  have groups: "map pointAndChildren (groupDiscussionPoints videoSession None)
      = [(js ''Warm up'', []), (t, [])]"
    by (simp add: groupDiscussionPoints_def displayedDiscussionPoints_def videoSession_fields
        groupLoop_groupsOf unnumbered [unfolded t_def] t_def)
  have "length (map pointAndChildren (groupDiscussionPoints videoSession None)) = 2"
    by (simp only: groups) simp
  then have len: "length (groupDiscussionPoints videoSession None) = 2"
    by simp
  have "map pointAndChildren (groupDiscussionPoints videoSession None) ! 1 = (t, [])"
    by (simp only: groups) simp
  then have pc: "pointAndChildren g = (t, [])"
    using len by (simp add: g_def)
  have g: "g \<in> set (groupDiscussionPoints videoSession None) \<and> point g = t"
    using len pc by (simp add: g_def pointAndChildren_def)
  have at: "discussionPoints videoSession = Some dps \<and> 1 < length dps"
    by (simp add: dps_def t_def videoSession_fields)
  have sess: "session c = videoSession"
    by (simp add: c_def mount_def)
  have vis: "int 3 < step c"
    by (simp add: c_def mount_def)
  note th = video_break_resolution [where s = videoSession and dps = dps and i = 1 and t = t
      and rest = "js ''A''" and c = c and k = 1 and n = 2 and idx = 3 and g = g and flt = None
      and gIdx = 1]
  from th at
  have "buildRevealItems videoSession ! (length (descriptionItems videoSession) + 1 + 1)
      = DiscussionPoint (dps ! 1) 1 (length dps)"
    by blast
  then have one: "buildRevealItems videoSession ! 3 = DiscussionPoint t 1 2"
    by (simp add: descriptionItems_def videoSession_fields js_def dps_def eval_nat_numeral)
  have link: "found = Some \<lparr> SessionResource.title = js ''A'', url = js ''https://a'',
      source = None \<rparr>"
    by (simp add: found_def videoSession_fields orEmpty_def)
  from th marker sess
  have "renderBody c (DiscussionPoint t 1 2)
      = (case found of Some r \<Rightarrow> VideoLink (url r) t | None \<Rightarrow> NumberedPoint (1 + 1) t)"
    unfolding found_def by blast
  then have "renderBody c (DiscussionPoint t 1 2) = VideoLink (js ''https://a'') t"
    by (simp add: link)
  then have two: "renderBody (mount videoSession [] True) (DiscussionPoint t 1 2)
      = VideoLink (js ''https://a'') t"
    by (simp add: renderBody_def c_def)
  from th marker sess vis
  have "map_option snd (renderItem c (DiscussionPoint t 1 2) 3)
      = Some (case found of Some r \<Rightarrow> VideoLink (url r) t | None \<Rightarrow> NumberedPoint (1 + 1) t)"
    unfolding found_def by blast
  then have three: "map_option snd (renderItem c (DiscussionPoint t 1 2) 3)
      = Some (VideoLink (js ''https://a'') t)"
    by (simp add: link)
  from th marker g
  have "renderGrouped 1 g
      = (case found of Some r \<Rightarrow> GroupedVideoLink (url r) t
         | None \<Rightarrow> GroupedPoint (1 + 1) t (children g))"
    unfolding found_def by blast
  then have four: "renderGrouped 1 g = GroupedVideoLink (js ''https://a'') t"
    by (simp add: link)
  have five: "point g = t" using g by simp
  show ?thesis
    using marker videoSession_fields(1) one two three five four
    unfolding t_def c_def g_def by blast
qed

text \<open>
  The claim as the specification words it: the text begins with \<^verbatim>\<open>Video Break:\<close>, and a
  resource whose title is the text without that prefix makes it a link. The point
  \<^verbatim>\<open>Video Break:A\<close> begins with the marker and the session has a resource titled \<open>A\<close>,
  yet the point is rendered as a plain numbered point: the source removes
  \<^verbatim>\<open>Video Break: \<close> with a space after the colon, which this text does not contain.
\<close>

theorem video_break_counterexample:
  "startsWith (js ''Video Break:A'') (js ''Video Break:'')
   \<and> map SessionResource.title (orEmpty (resources sampleSession))
       = [drop (length (js ''Video Break:'')) (js ''Video Break:A'')]
   \<and> renderBody sampleCard (DiscussionPoint (js ''Video Break:A'') 0 1)
       = NumberedPoint 1 (js ''Video Break:A'')"
  by (simp add: startsWith_def js_def orEmpty_def sampleSession_def renderBody_def
      videoResourceOf_def sampleCard_def mount_def Let_def)

end
